theory Spec2Isabelle
  imports Main "HOL-Library.Sublist"
begin

section \<open>The expression model of \<^verbatim>\<open>src/index.ts\<close>\<close>

text \<open>
  \<^verbatim>\<open>export enum Operator { And, Or, Xor }\<close> is a numeric TypeScript enum: its members
  are the numbers 0, 1 and 2 at run time. \<open>Operator_value\<close> is that encoding; it
  matters because the constructor tests its argument for truthiness.
\<close>

datatype Operator = And | Or | Xor

fun Operator_value :: "Operator \<Rightarrow> nat" where
  "Operator_value And = 0"
| "Operator_value Or = 1"
| "Operator_value Xor = 2"

text \<open>A JavaScript number is truthy unless it is zero (or NaN, which no enum member is).\<close>

definition truthy :: "nat \<Rightarrow> bool" where
  "truthy n = (n \<noteq> 0)"

text \<open>
  \<^verbatim>\<open>export enum Filter { Equal, NotEqual, ... , All, Any }\<close>, in the order of the source.
  The member \<^verbatim>\<open>All\<close> is written \<open>All_filter\<close>, since \<open>All\<close> is the universal quantifier.
\<close>

datatype Filter =
    Equal
  | NotEqual
  | GreaterOrEqual
  | LessOrEqual
  | GreaterThan
  | LessThan
  | StartsWith
  | EndsWith
  | DoesNotStartWith
  | DoesNotEndWith
  | Contains
  | DoesNotContain
  | IsNull
  | NotNull
  | Matches
  | DoesNotMatch
  | In
  | NotIn
  | All_filter
  | Any

text \<open>
  \<^verbatim>\<open>interface Query\<close>: every optional member (\<^verbatim>\<open>Operator?\<close>, \<^verbatim>\<open>Property?\<close>, \<^verbatim>\<open>Filter?\<close>,
  \<^verbatim>\<open>Value?\<close>, \<^verbatim>\<open>Queries?\<close>) is an \<open>option\<close>, \<open>None\<close> standing for a member that is
  absent (or \<^verbatim>\<open>undefined\<close>); the required member \<^verbatim>\<open>Not\<close> is a plain \<open>bool\<close>, written
  \<open>Not_flag\<close> because \<open>Not\<close> is negation in HOL. The payload type \<^verbatim>\<open>any\<close> of \<^verbatim>\<open>Value\<close> is
  the type parameter \<open>'v\<close>. The fields come in the order of the interface:
  \<^verbatim>\<open>Operator, Not, Property, Filter, Value, Queries\<close>.
\<close>

datatype 'v Query =
  Query (Operator: "Operator option")
        (Not_flag: bool)
        (Property: "string option")
        (Filter: "Filter option")
        (Value: "'v option")
        (Queries: "'v Query list option")

text \<open>Assignments to one member of a query object: \<^verbatim>\<open>q.Operator = op\<close> and \<^verbatim>\<open>q.Queries = qs\<close>.\<close>

definition set_Operator :: "Operator \<Rightarrow> 'v Query \<Rightarrow> 'v Query" where
  "set_Operator op q =
     Query (Some op) (Not_flag q) (Property q) (Filter q) (Value q) (Queries q)"

definition set_Queries :: "'v Query list \<Rightarrow> 'v Query \<Rightarrow> 'v Query" where
  "set_Queries qs q =
     Query (Operator q) (Not_flag q) (Property q) (Filter q) (Value q) (Some qs)"

section \<open>The builder\<close>

text \<open>
  \<^verbatim>\<open>class QueryBuilder { private currentQuery: Query; ... }\<close>. A method mutates the
  builder in place and returns \<^verbatim>\<open>this\<close>; the model passes the builder's state in and
  returns the state after the call.
\<close>

record 'v QueryBuilder =
  currentQuery :: "'v Query"

text \<open>
  What a call can raise: the run time's \<^verbatim>\<open>TypeError\<close> (reading \<^verbatim>\<open>.push\<close> of an absent
  \<^verbatim>\<open>Queries\<close>), or a value \<open>e\<close> thrown by a caller-supplied callback. The outcome of a
  chainable call is the exception that escaped, if any, together with the state of
  the builder it was called on when the call ended; \<open>None\<close> is a normal return of
  \<^verbatim>\<open>this\<close>.
\<close>

datatype 'e exn = TypeError | Thrown 'e

type_synonym ('e, 'v) outcome = "'e exn option \<times> 'v QueryBuilder"

text \<open>
  \<^verbatim>\<open>constructor(condition: Operator = Operator.And)\<close>: the argument is \<open>None\<close> when the
  caller passes nothing, and the default parameter (\<open>default_And\<close>) then supplies
  \<^verbatim>\<open>Operator.And\<close>. \<^verbatim>\<open>if (condition)\<close> is JavaScript truthiness of the enum's number.
\<close>

definition default_And :: "Operator option \<Rightarrow> Operator" where
  "default_And arg = (case arg of None \<Rightarrow> And | Some c \<Rightarrow> c)"

definition constructor :: "Operator option \<Rightarrow> 'v QueryBuilder" where
  "constructor arg =
     (let condition = default_And arg;
          this = \<lparr>currentQuery = Query None False None None None None\<rparr>
      in if truthy (Operator_value condition)
         then this\<lparr>currentQuery := set_Operator condition (currentQuery this)\<rparr>
         else this)"

text \<open>\<^verbatim>\<open>and()\<close>, \<^verbatim>\<open>or()\<close>, \<^verbatim>\<open>xor()\<close>: suffixed, the plain names being HOL's bit operations.\<close>

definition and_builder :: "'v QueryBuilder \<Rightarrow> 'v QueryBuilder" where
  "and_builder this = this\<lparr>currentQuery := set_Operator And (currentQuery this)\<rparr>"

definition or_builder :: "'v QueryBuilder \<Rightarrow> 'v QueryBuilder" where
  "or_builder this = this\<lparr>currentQuery := set_Operator Or (currentQuery this)\<rparr>"

definition xor_builder :: "'v QueryBuilder \<Rightarrow> 'v QueryBuilder" where
  "xor_builder this = this\<lparr>currentQuery := set_Operator Xor (currentQuery this)\<rparr>"

text \<open>
  \<^verbatim>\<open>build()\<close> returns \<^verbatim>\<open>this.currentQuery\<close>. The model returns the query together with
  the builder's state after the call, so that "build does not change the builder" is a
  statement about the second component.
\<close>

definition build :: "'v QueryBuilder \<Rightarrow> 'v Query \<times> 'v QueryBuilder" where
  "build this = (currentQuery this, this)"

text \<open>
  \<^verbatim>\<open>this.currentQuery.Queries.push(query)\<close>: a \<^verbatim>\<open>TypeError\<close> when \<^verbatim>\<open>Queries\<close> is absent,
  otherwise the array grows by one element at its end.
\<close>

definition push :: "'v Query \<Rightarrow> 'v QueryBuilder \<Rightarrow> ('e, 'v) outcome" where
  "push query this =
     (case Queries (currentQuery this) of
        None \<Rightarrow> (Some TypeError, this)
      | Some qs \<Rightarrow> (None, this\<lparr>currentQuery := set_Queries (qs @ [query]) (currentQuery this)\<rparr>))"

text \<open>
  \<^verbatim>\<open>if (!this.currentQuery.Queries) { this.currentQuery.Queries = []; }\<close>: an array, even
  an empty one, is truthy, so the test is true exactly when the member is absent.
\<close>

definition ensure_Queries :: "'v QueryBuilder \<Rightarrow> 'v QueryBuilder" where
  "ensure_Queries this =
     (if Queries (currentQuery this) = None
      then this\<lparr>currentQuery := set_Queries [] (currentQuery this)\<rparr>
      else this)"

text \<open>
  \<^verbatim>\<open>add(property, filter, value?)\<close>: \<open>value\<close> is \<open>None\<close> when the caller leaves it out. The
  parameter \<^verbatim>\<open>filter\<close> is written \<open>filter'\<close> (\<open>filter\<close> is a list function in HOL).
\<close>

definition add ::
  "string \<Rightarrow> Filter \<Rightarrow> 'v option \<Rightarrow> 'v QueryBuilder \<Rightarrow> ('e, 'v) outcome" where
  "add property filter' value this =
     (let query = Query None False (Some property) (Some filter') value None
      in push query (ensure_Queries this))"

text \<open>
  \<^verbatim>\<open>group(groupAction, condition = Operator.And)\<close>. The callback is a closure: it is
  handed the sub-builder, and it can also reach the builder \<^verbatim>\<open>group\<close> was called on. It
  is therefore a function of both builders, and yields the exception it threw, if
  any, the state it left the sub-builder in and the state it left the outer builder
  in. Its return value is discarded by the source. When the callback throws, the
  exception leaves \<^verbatim>\<open>group\<close> at once, with the outer builder as the callback left it;
  the statements after \<^verbatim>\<open>groupAction(group)\<close> run only when it returned normally, and
  they too work on the outer builder as the callback left it.
  \<^verbatim>\<open>new QueryBuilder(condition)\<close> receives the parameter after its default was applied.
  A callback that keeps the sub-builder and calls it after \<^verbatim>\<open>group\<close> has returned is
  outside this model.
\<close>

type_synonym ('e, 'v) callback =
  "'v QueryBuilder \<Rightarrow> 'v QueryBuilder \<Rightarrow> 'e exn option \<times> 'v QueryBuilder \<times> 'v QueryBuilder"

definition group_builder ::
  "('e, 'v) callback \<Rightarrow> Operator option \<Rightarrow> 'v QueryBuilder \<Rightarrow> ('e, 'v) outcome" where
  "group_builder groupAction condition this =
     (let group = constructor (Some (default_And condition))
      in case groupAction group this of
           (Some e, group', this') \<Rightarrow> (Some e, this')
         | (None, group', this') \<Rightarrow> push (fst (build group')) (ensure_Queries this'))"

text \<open>
  Method chaining, \<^verbatim>\<open>b.m1(...).m2(...)\<close>: the second call runs on the builder the first
  one returned; an exception from the first ends the chain.
\<close>

definition chain ::
  "('e, 'v) outcome \<Rightarrow> ('v QueryBuilder \<Rightarrow> ('e, 'v) outcome) \<Rightarrow> ('e, 'v) outcome" where
  "chain r m = (case r of (None, this) \<Rightarrow> m this | (Some e, this) \<Rightarrow> (Some e, this))"

section \<open>Client programs\<close>

text \<open>
  The children of a builder's current node, in order: the elements of \<^verbatim>\<open>Queries\<close>, and
  none when the member is absent.
\<close>

definition children_of :: "'v QueryBuilder \<Rightarrow> 'v Query list" where
  "children_of this = (case Queries (currentQuery this) of None \<Rightarrow> [] | Some qs \<Rightarrow> qs)"

text \<open>
  A sequence of calls on one builder, \<^verbatim>\<open>b.m1(...); b.m2(...); ...\<close> (or the same calls
  chained): each runs on the state the previous one left, and the first exception ends
  the sequence.
\<close>

primrec sequence ::
  "('v QueryBuilder \<Rightarrow> ('e, 'v) outcome) list \<Rightarrow> 'v QueryBuilder \<Rightarrow> ('e, 'v) outcome" where
  "sequence [] = (\<lambda>this. (None, this))"
| "sequence (m # ms) = (\<lambda>this. chain (m this) (sequence ms))"

text \<open>
  \<open>add_calls cs\<close> is \<^verbatim>\<open>b.add(p1, f1, v1).add(p2, f2, v2)...\<close>, one call for each triple of
  \<open>cs\<close>, in the order of the list.
\<close>

definition add_calls ::
  "(string \<times> Filter \<times> 'v option) list \<Rightarrow> 'v QueryBuilder \<Rightarrow> ('e, 'v) outcome" where
  "add_calls cs = sequence (map (\<lambda>(property, filter', value). add property filter' value) cs)"

text \<open>
  The statements of a callback body run one after the other on the two builders the
  closure reaches, and the first exception ends the body.
\<close>

primrec closure_body :: "('e, 'v) callback list \<Rightarrow> ('e, 'v) callback" where
  "closure_body [] = (\<lambda>qb outer. (None, qb, outer))"
| "closure_body (s # ss) =
     (\<lambda>qb outer. case s qb outer of
        (None, qb', outer') \<Rightarrow> closure_body ss qb' outer'
      | (Some e, qb', outer') \<Rightarrow> (Some e, qb', outer'))"

text \<open>
  The programs a client can write with the public interface alone: a call of each
  method on a builder, or \<^verbatim>\<open>throw e\<close>. The callback handed to \<^verbatim>\<open>group\<close> is a list of
  statements, each of them such a call made on the sub-builder (\<^verbatim>\<open>qb.m(...)\<close>, \<open>OnSub\<close>)
  or, through the closure, on the builder \<^verbatim>\<open>group\<close> was called on (\<^verbatim>\<open>b.m(...)\<close>,
  \<open>OnOuter\<close>). \<open>run_call\<close> runs one call with the definitions above,
  \<open>sequence (map run_call calls)\<close> a list of calls on one builder, and \<open>run_stmt\<close> one
  statement of a callback.
\<close>

datatype ('e, 'v) call =
    CallAnd
  | CallOr
  | CallXor
  | CallAdd string Filter "'v option"
  | CallGroup "('e, 'v) stmt list" "Operator option"
  | CallBuild
  | Throw 'e
and ('e, 'v) stmt =
    OnSub "('e, 'v) call"
  | OnOuter "('e, 'v) call"

primrec run_call :: "('e, 'v) call \<Rightarrow> 'v QueryBuilder \<Rightarrow> ('e, 'v) outcome"
  and run_stmt :: "('e, 'v) stmt \<Rightarrow> ('e, 'v) callback" where
  "run_call CallAnd = (\<lambda>this. (None, and_builder this))"
| "run_call CallOr = (\<lambda>this. (None, or_builder this))"
| "run_call CallXor = (\<lambda>this. (None, xor_builder this))"
| "run_call (CallAdd property filter' value) = add property filter' value"
| "run_call (CallGroup body condition) =
     group_builder (closure_body (map run_stmt body)) condition"
| "run_call CallBuild = (\<lambda>this. (None, snd (build this)))"
| "run_call (Throw e) = (\<lambda>this. (Some (Thrown e), this))"
| "run_stmt (OnSub c) = (\<lambda>qb outer. case run_call c qb of (x, qb') \<Rightarrow> (x, qb', outer))"
| "run_stmt (OnOuter c) =
     (\<lambda>qb outer. case run_call c outer of (x, outer') \<Rightarrow> (x, qb, outer'))"

text \<open>No \<^verbatim>\<open>throw\<close> anywhere in a call, nested callbacks included.\<close>

fun throw_free :: "('e, 'v) call \<Rightarrow> bool"
  and throw_free_stmt :: "('e, 'v) stmt \<Rightarrow> bool" where
  "throw_free (Throw e) = False"
| "throw_free (CallGroup body condition) = list_all throw_free_stmt body"
| "throw_free c = True"
| "throw_free_stmt (OnSub c) = throw_free c"
| "throw_free_stmt (OnOuter c) = throw_free c"

text \<open>\<^verbatim>\<open>Not\<close> is false on a node and on every node below it.\<close>

fun all_Not_false :: "'v Query \<Rightarrow> bool" where
  "all_Not_false (Query op n p f v qs) =
     (n = False \<and> (case qs of None \<Rightarrow> True | Some xs \<Rightarrow> list_all all_Not_false xs))"

text \<open>
  The values of the end-to-end example: the number \<^verbatim>\<open>18\<close> and the string \<^verbatim>\<open>"US"\<close>.
\<close>

datatype js_value = JsNumber int | JsString string

section \<open>Auxiliary facts\<close>

lemma Queries_set_Queries [simp]: "Queries (set_Queries qs q) = Some qs"
  by (simp add: set_Queries_def)

lemma set_Queries_twice [simp]: "set_Queries qs (set_Queries qs' q) = set_Queries qs q"
  by (simp add: set_Queries_def)

lemma children_of_set_Queries [simp]:
  "children_of (this\<lparr>currentQuery := set_Queries qs q\<rparr>) = qs"
  by (simp add: children_of_def)

lemma children_of_set_Operator [simp]:
  "children_of (this\<lparr>currentQuery := set_Operator op (currentQuery this)\<rparr>) = children_of this"
  by (simp add: children_of_def set_Operator_def)

lemma constructor_None:
  "constructor None = \<lparr>currentQuery = Query None False None None None None\<rparr>"
  by (simp add: constructor_def default_And_def truthy_def)

lemma constructor_Some:
  "constructor (Some op) =
     \<lparr>currentQuery = Query (if op = And then None else Some op) False None None None None\<rparr>"
  by (cases op) (simp_all add: constructor_def default_And_def truthy_def set_Operator_def)

text \<open>
  \<^verbatim>\<open>group\<close> passes its parameter on after the default was applied; the sub-builder is the
  one the constructor makes from the argument itself.
\<close>

lemma constructor_default [simp]: "constructor (Some (default_And arg)) = constructor arg"
  by (cases arg) (simp_all add: default_And_def constructor_None constructor_Some)

lemma Queries_constructor [simp]: "Queries (currentQuery (constructor arg)) = None"
  by (cases arg) (simp_all add: constructor_None constructor_Some)

lemma children_of_constructor [simp]: "children_of (constructor arg) = []"
  by (simp add: children_of_def)

text \<open>The guard before \<^verbatim>\<open>push\<close> makes its \<^verbatim>\<open>TypeError\<close> branch unreachable.\<close>

lemma push_ensure:
  "push q (ensure_Queries this) =
     (None, this\<lparr>currentQuery := set_Queries (children_of this @ [q]) (currentQuery this)\<rparr>)"
  by (cases "Queries (currentQuery this)")
     (simp_all add: push_def ensure_Queries_def children_of_def)

lemma add_eq:
  "add p f v this =
     (None, this\<lparr>currentQuery :=
        set_Queries (children_of this @ [Query None False (Some p) (Some f) v None])
          (currentQuery this)\<rparr>)"
  by (simp add: add_def push_ensure)

lemma group_thrown:
  "ga (constructor c) this = (Some e, g, this') \<Longrightarrow> group_builder ga c this = (Some e, this')"
  by (simp add: group_builder_def)

lemma group_returned:
  "ga (constructor c) this = (None, g, this') \<Longrightarrow>
     group_builder ga c this =
       (None, this'\<lparr>currentQuery :=
          set_Queries (children_of this' @ [currentQuery g]) (currentQuery this')\<rparr>)"
  by (simp add: group_builder_def push_ensure build_def)

lemma fst_group: "fst (group_builder ga c this) = fst (ga (constructor c) this)"
proof (cases "ga (constructor c) this")
  case (fields x g this')
  then show ?thesis
    by (cases x) (simp_all add: group_thrown group_returned)
qed

lemma add_calls_Nil [simp]: "add_calls [] this = (None, this)"
  by (simp add: add_calls_def)

lemma add_calls_Cons [simp]:
  "add_calls (c # cs) this =
     add_calls cs (this\<lparr>currentQuery :=
        set_Queries (children_of this @
            [case c of (p, f, v) \<Rightarrow> Query None False (Some p) (Some f) v None])
          (currentQuery this)\<rparr>)"
  by (cases c) (simp add: add_calls_def chain_def add_eq)

lemma add_calls_eq:
  "add_calls cs this =
     (None, if cs = [] then this
            else this\<lparr>currentQuery :=
                   set_Queries (children_of this @
                       map (\<lambda>(p, f, v). Query None False (Some p) (Some f) v None) cs)
                     (currentQuery this)\<rparr>)"
proof (induction cs arbitrary: this)
  case Nil
  show ?case by simp
next
  case (Cons c cs)
  show ?case
    by (simp add: Cons.IH)
qed

subsection \<open>\<^verbatim>\<open>Not\<close> stays false\<close>

lemma inv_set_Operator: "all_Not_false q \<Longrightarrow> all_Not_false (set_Operator op q)"
  by (cases q) (simp add: set_Operator_def)

lemma inv_set_Queries:
  "all_Not_false q \<Longrightarrow> list_all all_Not_false qs \<Longrightarrow> all_Not_false (set_Queries qs q)"
  by (cases q) (simp add: set_Queries_def)

lemma inv_children:
  "all_Not_false (currentQuery this) \<Longrightarrow> list_all all_Not_false (children_of this)"
  by (cases "currentQuery this") (simp add: children_of_def split: option.splits)

lemma inv_constructor: "all_Not_false (currentQuery (constructor arg))"
  by (cases arg) (simp_all add: constructor_None constructor_Some)

lemma inv_add:
  "all_Not_false (currentQuery this) \<Longrightarrow> add p f v this = (e, this') \<Longrightarrow>
     all_Not_false (currentQuery this')"
  by (auto simp: add_eq inv_set_Queries inv_children)

text \<open>
  \<^verbatim>\<open>group\<close> writes \<^verbatim>\<open>Not\<close> nowhere: if the callback, whatever it is, left both builders with
  \<^verbatim>\<open>Not\<close> false everywhere, the outer builder has \<^verbatim>\<open>Not\<close> false everywhere after \<^verbatim>\<open>group\<close>.
\<close>

lemma inv_group:
  assumes cb: "ga (constructor c) this = (x, g, this')"
    and sub: "all_Not_false (currentQuery g)"
    and outer: "all_Not_false (currentQuery this')"
    and res: "group_builder ga c this = (e, this'')"
  shows "all_Not_false (currentQuery this'')"
proof (cases x)
  case None
  with cb res sub outer show ?thesis
    by (auto simp: group_returned inv_set_Queries inv_children)
next
  case (Some y)
  with cb res outer show ?thesis
    by (auto simp: group_thrown)
qed

lemma inv_sequence:
  assumes "\<And>m qb e qb'. m \<in> set ms \<Longrightarrow> all_Not_false (currentQuery qb) \<Longrightarrow>
             m qb = (e, qb') \<Longrightarrow> all_Not_false (currentQuery qb')"
    and "all_Not_false (currentQuery this)"
    and "sequence ms this = (e, this')"
  shows "all_Not_false (currentQuery this')"
  using assms
proof (induction ms arbitrary: this)
  case Nil
  then show ?case by simp
next
  case (Cons m ms)
  obtain x this1 where m: "m this = (x, this1)" by (cases "m this")
  have inv1: "all_Not_false (currentQuery this1)"
    using Cons.prems(1) [of m this x this1] Cons.prems(2) m by simp
  show ?case
  proof (cases x)
    case None
    with m Cons.prems(3) have rest: "sequence ms this1 = (e, this')"
      by (simp add: chain_def)
    show ?thesis
    proof (rule Cons.IH [OF _ inv1 rest])
      fix m' qb e1 qb'
      assume "m' \<in> set ms" "all_Not_false (currentQuery qb)" "m' qb = (e1, qb')"
      then show "all_Not_false (currentQuery qb')"
        using Cons.prems(1) [of m' qb e1 qb'] by simp
    qed
  next
    case (Some y)
    with m Cons.prems(3) inv1 show ?thesis
      by (simp add: chain_def)
  qed
qed

lemma inv_closure_body:
  assumes "\<And>s qb outer x qb' outer'. s \<in> set ss \<Longrightarrow> all_Not_false (currentQuery qb) \<Longrightarrow>
             all_Not_false (currentQuery outer) \<Longrightarrow> s qb outer = (x, qb', outer') \<Longrightarrow>
             all_Not_false (currentQuery qb') \<and> all_Not_false (currentQuery outer')"
    and "all_Not_false (currentQuery qb)"
    and "all_Not_false (currentQuery outer)"
    and "closure_body ss qb outer = (x, qb', outer')"
  shows "all_Not_false (currentQuery qb') \<and> all_Not_false (currentQuery outer')"
  using assms
proof (induction ss arbitrary: qb outer)
  case Nil
  then show ?case by simp
next
  case (Cons s ss)
  obtain y qb1 outer1 where s: "s qb outer = (y, qb1, outer1)"
    by (cases "s qb outer")
  have inv1: "all_Not_false (currentQuery qb1) \<and> all_Not_false (currentQuery outer1)"
    using Cons.prems(1) [of s qb outer y qb1 outer1] Cons.prems(2,3) s by simp
  show ?case
  proof (cases y)
    case None
    with s Cons.prems(4) have rest: "closure_body ss qb1 outer1 = (x, qb', outer')"
      by simp
    show ?thesis
    proof (rule Cons.IH [OF _ _ _ rest])
      fix s' a b z a' b'
      assume "s' \<in> set ss" "all_Not_false (currentQuery a)" "all_Not_false (currentQuery b)"
        "s' a b = (z, a', b')"
      then show "all_Not_false (currentQuery a') \<and> all_Not_false (currentQuery b')"
        using Cons.prems(1) [of s' a b z a' b'] by simp
    qed (use inv1 in simp_all)
  next
    case (Some z)
    with s Cons.prems(4) inv1 show ?thesis
      by auto
  qed
qed

lemma inv_run:
  fixes c :: "('e, 'v) call" and s :: "('e, 'v) stmt"
  shows "all_Not_false (currentQuery this) \<Longrightarrow> run_call c this = (e, this') \<Longrightarrow>
           all_Not_false (currentQuery this')"
    and "all_Not_false (currentQuery qb) \<Longrightarrow> all_Not_false (currentQuery outer) \<Longrightarrow>
           run_stmt s qb outer = (x, qb', outer') \<Longrightarrow>
           all_Not_false (currentQuery qb') \<and> all_Not_false (currentQuery outer')"
proof (induction c and s arbitrary: this e this' and qb outer x qb' outer')
  case CallAnd
  then show ?case by (auto simp: and_builder_def inv_set_Operator)
next
  case CallOr
  then show ?case by (auto simp: or_builder_def inv_set_Operator)
next
  case CallXor
  then show ?case by (auto simp: xor_builder_def inv_set_Operator)
next
  case (CallAdd p f v)
  then show ?case using inv_add [of this p f v e this'] by simp
next
  case (CallGroup body condition)
  obtain y g o' where cb:
    "closure_body (map run_stmt body) (constructor condition) this = (y, g, o')"
    by (cases "closure_body (map run_stmt body) (constructor condition) this")
  have both: "all_Not_false (currentQuery g) \<and> all_Not_false (currentQuery o')"
  proof (rule inv_closure_body [OF _ inv_constructor CallGroup.prems(1) cb])
    fix s a b z a' b'
    assume s: "s \<in> set (map run_stmt body)"
      and a: "all_Not_false (currentQuery a)"
      and b: "all_Not_false (currentQuery b)"
      and r: "s a b = (z, a', b')"
    from s obtain st where st: "st \<in> set body" "s = run_stmt st"
      by auto
    from r st(2) have "run_stmt st a b = (z, a', b')"
      by simp
    then show "all_Not_false (currentQuery a') \<and> all_Not_false (currentQuery b')"
      by (rule CallGroup.IH [OF st(1) a b])
  qed
  from CallGroup.prems(2) have res:
    "group_builder (closure_body (map run_stmt body)) condition this = (e, this')"
    by simp
  from both show ?case
    using inv_group [OF cb _ _ res] by simp
next
  case CallBuild
  then show ?case by (simp add: build_def)
next
  case (Throw z)
  then show ?case by simp
next
  case (OnSub c)
  obtain y a where r: "run_call c qb = (y, a)" by (cases "run_call c qb")
  with OnSub.prems(3) have eq: "qb' = a" "outer' = outer"
    by simp_all
  have "all_Not_false (currentQuery a)"
    by (rule OnSub.IH [OF OnSub.prems(1) r])
  with eq OnSub.prems(2) show ?case by simp
next
  case (OnOuter c)
  obtain y a where r: "run_call c outer = (y, a)" by (cases "run_call c outer")
  with OnOuter.prems(3) have eq: "qb' = qb" "outer' = a"
    by simp_all
  have "all_Not_false (currentQuery a)"
    by (rule OnOuter.IH [OF OnOuter.prems(2) r])
  with eq OnOuter.prems(1) show ?case by simp
qed

lemma inv_run_calls:
  assumes "all_Not_false (currentQuery this)"
    and "sequence (map run_call calls) this = (e, this')"
  shows "all_Not_false (currentQuery this')"
proof (rule inv_sequence [OF _ assms])
  fix m qb e1 qb'
  assume "m \<in> set (map run_call calls)" "all_Not_false (currentQuery qb)" "m qb = (e1, qb')"
  then show "all_Not_false (currentQuery qb')"
    using inv_run(1) by auto
qed

subsection \<open>Which calls can fail\<close>

lemma sequence_no_TypeError:
  "(\<And>m qb. m \<in> set ms \<Longrightarrow> fst (m qb) \<noteq> Some TypeError) \<Longrightarrow>
     fst (sequence ms this) \<noteq> Some TypeError"
proof (induction ms arbitrary: this)
  case Nil
  show ?case by simp
next
  case (Cons m ms)
  obtain x this1 where m: "m this = (x, this1)" by (cases "m this")
  have "x \<noteq> Some TypeError" using Cons.prems [of m this] m by simp
  with m Cons show ?case
    by (cases x) (simp_all add: chain_def)
qed

lemma closure_body_no_TypeError:
  "(\<And>s qb outer. s \<in> set ss \<Longrightarrow> fst (s qb outer) \<noteq> Some TypeError) \<Longrightarrow>
     fst (closure_body ss qb outer) \<noteq> Some TypeError"
proof (induction ss arbitrary: qb outer)
  case Nil
  show ?case by simp
next
  case (Cons s ss)
  obtain x qb1 outer1 where s: "s qb outer = (x, qb1, outer1)" by (cases "s qb outer")
  have "x \<noteq> Some TypeError" using Cons.prems [of s qb outer] s by simp
  with s Cons show ?case
    by (cases x) simp_all
qed

lemma run_no_TypeError:
  fixes c :: "('e, 'v) call" and s :: "('e, 'v) stmt"
  shows "fst (run_call c this) \<noteq> Some TypeError"
    and "fst (run_stmt s qb outer) \<noteq> Some TypeError"
proof (induction c and s arbitrary: this and qb outer)
  case (CallGroup body condition)
  have "fst (closure_body (map run_stmt body) (constructor condition) this) \<noteq> Some TypeError"
    by (rule closure_body_no_TypeError) (use CallGroup.IH in auto)
  then show ?case by (simp add: fst_group)
qed (simp_all add: add_eq case_prod_beta)

lemma run_calls_no_TypeError: "fst (sequence (map run_call calls) this) \<noteq> Some TypeError"
  by (rule sequence_no_TypeError) (auto simp: run_no_TypeError)

lemma sequence_returns:
  "(\<And>m qb. m \<in> set ms \<Longrightarrow> fst (m qb) = None) \<Longrightarrow> fst (sequence ms this) = None"
proof (induction ms arbitrary: this)
  case Nil
  show ?case by simp
next
  case (Cons m ms)
  obtain x this1 where m: "m this = (x, this1)" by (cases "m this")
  have "x = None" using Cons.prems [of m this] m by simp
  with m Cons show ?case
    by (simp add: chain_def)
qed

lemma closure_body_returns:
  "(\<And>s qb outer. s \<in> set ss \<Longrightarrow> fst (s qb outer) = None) \<Longrightarrow>
     fst (closure_body ss qb outer) = None"
proof (induction ss arbitrary: qb outer)
  case Nil
  show ?case by simp
next
  case (Cons s ss)
  obtain x qb1 outer1 where s: "s qb outer = (x, qb1, outer1)" by (cases "s qb outer")
  have "x = None" using Cons.prems [of s qb outer] s by simp
  with s Cons show ?case
    by simp
qed

lemma throw_free_returns:
  fixes c :: "('e, 'v) call" and s :: "('e, 'v) stmt"
  shows "throw_free c \<Longrightarrow> fst (run_call c this) = None"
    and "throw_free_stmt s \<Longrightarrow> fst (run_stmt s qb outer) = None"
proof (induction c and s arbitrary: this and qb outer)
  case (CallGroup body condition)
  then have "fst (closure_body (map run_stmt body) (constructor condition) this) = None"
    by (intro closure_body_returns) (auto simp: list_all_iff)
  then show ?case by (simp add: fst_group)
qed (simp_all add: add_eq case_prod_beta)

lemma throw_free_list_returns:
  "list_all throw_free calls \<Longrightarrow> fst (sequence (map run_call calls) this) = None"
  by (rule sequence_returns) (auto simp: list_all_iff throw_free_returns)

subsection \<open>Children are only appended\<close>

lemma prefix_add:
  "add p f v this = (e, this') \<Longrightarrow> prefix (children_of this) (children_of this')"
  by (auto simp: add_eq)

lemma prefix_group:
  assumes cb: "ga (constructor c) this = (x, g, outer)"
    and left: "prefix (children_of this) (children_of outer)"
    and res: "group_builder ga c this = (e, this')"
  shows "prefix (children_of this) (children_of this')"
proof (cases x)
  case None
  with cb res have "children_of this' = children_of outer @ [currentQuery g]"
    by (auto simp: group_returned)
  with left show ?thesis
    by (simp add: prefix_prefix)
next
  case (Some y)
  with cb res left show ?thesis
    by (auto simp: group_thrown)
qed

lemma prefix_sequence:
  assumes "\<And>m qb e qb'. m \<in> set ms \<Longrightarrow> m qb = (e, qb') \<Longrightarrow>
             prefix (children_of qb) (children_of qb')"
    and "sequence ms this = (e, this')"
  shows "prefix (children_of this) (children_of this')"
  using assms
proof (induction ms arbitrary: this)
  case Nil
  then show ?case by simp
next
  case (Cons m ms)
  obtain x this1 where m: "m this = (x, this1)" by (cases "m this")
  have step: "prefix (children_of this) (children_of this1)"
    using Cons.prems(1) [of m this x this1] m by simp
  show ?case
  proof (cases x)
    case None
    with m Cons.prems(2) have rest: "sequence ms this1 = (e, this')"
      by (simp add: chain_def)
    have "prefix (children_of this1) (children_of this')"
    proof (rule Cons.IH [OF _ rest])
      fix m' qb e1 qb'
      assume "m' \<in> set ms" "m' qb = (e1, qb')"
      then show "prefix (children_of qb) (children_of qb')"
        using Cons.prems(1) [of m' qb e1 qb'] by simp
    qed
    with step show ?thesis
      by (rule prefix_order.trans)
  next
    case (Some y)
    with m Cons.prems(2) step show ?thesis
      by (simp add: chain_def)
  qed
qed

lemma prefix_closure_body:
  assumes "\<And>s qb outer x qb' outer'. s \<in> set ss \<Longrightarrow> s qb outer = (x, qb', outer') \<Longrightarrow>
             prefix (children_of qb) (children_of qb')
             \<and> prefix (children_of outer) (children_of outer')"
    and "closure_body ss qb outer = (x, qb', outer')"
  shows "prefix (children_of qb) (children_of qb')
         \<and> prefix (children_of outer) (children_of outer')"
  using assms
proof (induction ss arbitrary: qb outer)
  case Nil
  then show ?case by simp
next
  case (Cons s ss)
  obtain y qb1 outer1 where s: "s qb outer = (y, qb1, outer1)"
    by (cases "s qb outer")
  have step: "prefix (children_of qb) (children_of qb1)
      \<and> prefix (children_of outer) (children_of outer1)"
    using Cons.prems(1) [of s qb outer y qb1 outer1] s by simp
  show ?case
  proof (cases y)
    case None
    with s Cons.prems(2) have rest: "closure_body ss qb1 outer1 = (x, qb', outer')"
      by simp
    have "prefix (children_of qb1) (children_of qb')
        \<and> prefix (children_of outer1) (children_of outer')"
    proof (rule Cons.IH [OF _ rest])
      fix s' a b z a' b'
      assume "s' \<in> set ss" "s' a b = (z, a', b')"
      then show "prefix (children_of a) (children_of a')
          \<and> prefix (children_of b) (children_of b')"
        using Cons.prems(1) [of s' a b z a' b'] by simp
    qed
    with step show ?thesis
      using prefix_order.trans by blast
  next
    case (Some z)
    with s Cons.prems(2) step show ?thesis
      by auto
  qed
qed

lemma prefix_run:
  fixes c :: "('e, 'v) call" and s :: "('e, 'v) stmt"
  shows "run_call c this = (e, this') \<Longrightarrow> prefix (children_of this) (children_of this')"
    and "run_stmt s qb outer = (x, qb', outer') \<Longrightarrow>
           prefix (children_of qb) (children_of qb')
           \<and> prefix (children_of outer) (children_of outer')"
proof (induction c and s arbitrary: this e this' and qb outer x qb' outer')
  case CallAnd
  then show ?case by (auto simp: and_builder_def)
next
  case CallOr
  then show ?case by (auto simp: or_builder_def)
next
  case CallXor
  then show ?case by (auto simp: xor_builder_def)
next
  case (CallAdd p f v)
  then show ?case using prefix_add [of p f v this e this'] by simp
next
  case (CallGroup body condition)
  obtain y g o' where cb:
    "closure_body (map run_stmt body) (constructor condition) this = (y, g, o')"
    by (cases "closure_body (map run_stmt body) (constructor condition) this")
  have both: "prefix (children_of (constructor condition)) (children_of g)
      \<and> prefix (children_of this) (children_of o')"
  proof (rule prefix_closure_body [OF _ cb])
    fix s a b z a' b'
    assume s: "s \<in> set (map run_stmt body)" and r: "s a b = (z, a', b')"
    from s obtain st where st: "st \<in> set body" "s = run_stmt st"
      by auto
    from r st(2) have "run_stmt st a b = (z, a', b')"
      by simp
    then show "prefix (children_of a) (children_of a') \<and> prefix (children_of b) (children_of b')"
      by (rule CallGroup.IH [OF st(1)])
  qed
  from CallGroup.prems have res:
    "group_builder (closure_body (map run_stmt body)) condition this = (e, this')"
    by simp
  from both show ?case
    using prefix_group [OF cb _ res] by simp
next
  case CallBuild
  then show ?case by (auto simp: build_def)
next
  case (Throw z)
  then show ?case by auto
next
  case (OnSub c)
  obtain y a where r: "run_call c qb = (y, a)" by (cases "run_call c qb")
  with OnSub.prems have eq: "qb' = a" "outer' = outer"
    by simp_all
  have "prefix (children_of qb) (children_of a)"
    by (rule OnSub.IH [OF r])
  with eq show ?case by simp
next
  case (OnOuter c)
  obtain y a where r: "run_call c outer = (y, a)" by (cases "run_call c outer")
  with OnOuter.prems have eq: "qb' = qb" "outer' = a"
    by simp_all
  have "prefix (children_of outer) (children_of a)"
    by (rule OnOuter.IH [OF r])
  with eq show ?case by simp
qed

lemma prefix_run_calls:
  assumes "sequence (map run_call calls) this = (e, this')"
  shows "prefix (children_of this) (children_of this')"
proof (rule prefix_sequence [OF _ assms])
  fix m qb e1 qb'
  assume "m \<in> set (map run_call calls)" "m qb = (e1, qb')"
  then show "prefix (children_of qb) (children_of qb')"
    using prefix_run(1) by auto
qed

section \<open>The claims\<close>

text \<open>
  C1. The specification: for every operator \<open>op\<close> of AND, OR, XOR passed to the
  constructor, \<^verbatim>\<open>build()\<close> on the fresh builder gives a node with \<^verbatim>\<open>Operator\<close> equal to
  \<open>op\<close>, \<^verbatim>\<open>Not\<close> false and no \<^verbatim>\<open>Queries\<close>. The code does so for OR and XOR. For an explicit
  \<^verbatim>\<open>Operator.And\<close> the node has no \<^verbatim>\<open>Operator\<close> member: \<^verbatim>\<open>if (condition)\<close> tests the
  enum's number, and AND is zero.
\<close>

theorem C1_explicit_And_is_dropped:
  "fst (build (constructor (Some And) :: 'v QueryBuilder)) = Query None False None None None None
   \<and> Operator (fst (build (constructor (Some And) :: 'v QueryBuilder))) \<noteq> Some And
   \<and> fst (build (constructor (Some Or) :: 'v QueryBuilder))
       = Query (Some Or) False None None None None
   \<and> fst (build (constructor (Some Xor) :: 'v QueryBuilder))
       = Query (Some Xor) False None None None None"
  by (simp add: constructor_Some build_def)

text \<open>
  C2. Constructing a builder with no argument and calling \<^verbatim>\<open>build()\<close> gives a root whose
  \<^verbatim>\<open>Not\<close> is false and which has no \<^verbatim>\<open>Operator\<close> member at all: the default
  \<^verbatim>\<open>Operator.And\<close> is the number zero and fails the truthiness test. No other member is
  present either.
\<close>

theorem C2_default_constructor_no_operator:
  "Not_flag (fst (build (constructor None :: 'v QueryBuilder))) = False
   \<and> Operator (fst (build (constructor None :: 'v QueryBuilder))) = None
   \<and> fst (build (constructor None :: 'v QueryBuilder)) = Query None False None None None None"
  by (simp add: constructor_def default_And_def build_def truthy_def)

text \<open>
  C3. The specification: on a default-constructed builder,
  \<^verbatim>\<open>add("age", GreaterThan, 18).add("country", Equal, "US").build()\<close> is the tree with
  \<^verbatim>\<open>Operator: And\<close>, \<^verbatim>\<open>Not: false\<close> and the two leaves. The code returns normally with the
  two leaves in that order under a root with \<^verbatim>\<open>Not: false\<close>, but the root has no
  \<^verbatim>\<open>Operator\<close> member, so the result is not the specified tree.
\<close>

theorem C3_default_builder_two_conditions:
  "(case chain (add ''age'' GreaterThan (Some (JsNumber 18)) (constructor None))
               (add ''country'' Equal (Some (JsString ''US'')))
    of (e :: 'e exn option, this) \<Rightarrow> (e, fst (build this)))
     = (None,
        Query None False None None None
          (Some [Query None False (Some ''age'') (Some GreaterThan) (Some (JsNumber 18)) None,
                 Query None False (Some ''country'') (Some Equal) (Some (JsString ''US''))
                   None]))
   \<and> (case chain (add ''age'' GreaterThan (Some (JsNumber 18)) (constructor None))
                 (add ''country'' Equal (Some (JsString ''US'')))
      of (e :: 'e exn option, this) \<Rightarrow> (e, fst (build this)))
     \<noteq> (None,
        Query (Some And) False None None None
          (Some [Query None False (Some ''age'') (Some GreaterThan) (Some (JsNumber 18)) None,
                 Query None False (Some ''country'') (Some Equal) (Some (JsString ''US''))
                   None]))"
  by (simp add: add_eq chain_def constructor_None build_def set_Queries_def children_of_def)

text \<open>
  C4. For every property \<open>p\<close>, filter \<open>f\<close> and value \<open>v\<close> (given or left out), and
  whatever was passed to the constructor: the fresh builder has no \<^verbatim>\<open>Queries\<close>; one call
  \<^verbatim>\<open>add(p, f, v)\<close> returns normally and \<^verbatim>\<open>Queries\<close> is then the one-element sequence holding
  the leaf with \<^verbatim>\<open>Property: p, Filter: f, Value: v, Not: false\<close>; the other members of the
  root are as the constructor left them.
\<close>

theorem C4_add_once_on_fresh_builder:
  "Queries (fst (build (constructor arg :: 'v QueryBuilder))) = None
   \<and> (case add p f v (constructor arg) of (e :: 'e exn option, this) \<Rightarrow>
         (e, Queries (fst (build this))))
       = (None, Some [Query None False (Some p) (Some f) v None])
   \<and> (case add p f v (constructor arg) of (e :: 'e exn option, this) \<Rightarrow>
         (e, fst (build this)))
       = (None, set_Queries [Query None False (Some p) (Some f) (v :: 'v option) None]
                  (fst (build (constructor arg))))"
  by (simp add: add_eq build_def)

text \<open>
  C5. Children are only ever appended, in call order. For every list \<open>cs\<close> of \<open>N\<close>
  \<^verbatim>\<open>add\<close> calls: on any builder the calls return normally and the children afterwards
  are the children before followed by the \<open>N\<close> leaves in call order; on a fresh builder
  the children are exactly those leaves, so there are \<open>N\<close> of them and the \<open>i\<close>-th is the
  leaf of the \<open>i\<close>-th call, and \<^verbatim>\<open>Queries\<close> is present as soon as \<open>N > 0\<close>. Each single
  mutating operation only appends: \<^verbatim>\<open>add\<close> appends its leaf; \<^verbatim>\<open>group\<close> appends, to the
  children its callback left on the outer builder, the sub-builder's node when the
  callback returns and nothing when it throws; \<^verbatim>\<open>and\<close>, \<^verbatim>\<open>or\<close>, \<^verbatim>\<open>xor\<close> leave the children as
  they are. So for every client program, callbacks that call the outer builder
  included, the children before it are a prefix of the children after it.
\<close>

theorem C5_children_append_only:
  fixes this :: "'v QueryBuilder"
    and ga :: "('e, 'v) callback"
    and calls :: "('e, 'v) call list"
  shows
  "(case add_calls cs this of (e :: 'e exn option, this') \<Rightarrow> (e, children_of this'))
     = (None, children_of this
                @ map (\<lambda>(p, f, v). Query None False (Some p) (Some f) v None) cs)
   \<and> (case add_calls cs (constructor arg) of (e :: 'e exn option, this' :: 'v QueryBuilder) \<Rightarrow>
         e = None
         \<and> length (children_of this') = length cs
         \<and> (\<forall>i < length cs.
               children_of this' ! i
                 = (case cs ! i of (p, f, v) \<Rightarrow> Query None False (Some p) (Some f) v None))
         \<and> (cs \<noteq> [] \<longrightarrow>
               Queries (fst (build this'))
                 = Some (map (\<lambda>(p, f, v). Query None False (Some p) (Some f) v None) cs)))
   \<and> (case add p f v this of (e :: 'e exn option, this') \<Rightarrow> Queries (currentQuery this'))
       = Some (children_of this @ [Query None False (Some p) (Some f) v None])
   \<and> (case group_builder ga c this of (e, this') \<Rightarrow> children_of this')
       = (case ga (constructor c) this of
            (None, g, outer) \<Rightarrow> children_of outer @ [fst (build g)]
          | (Some x, g, outer) \<Rightarrow> children_of outer)
   \<and> children_of (and_builder this) = children_of this
   \<and> children_of (or_builder this) = children_of this
   \<and> children_of (xor_builder this) = children_of this
   \<and> (case sequence (map run_call calls) this of (e, this') \<Rightarrow>
         prefix (children_of this) (children_of this'))"
proof -
  let ?leaf = "\<lambda>(p, f, v). Query None False (Some p) (Some f) (v :: 'v option) None"
  have calls: "(case add_calls cs this of (e :: 'e exn option, this') \<Rightarrow> (e, children_of this'))
     = (None, children_of this @ map ?leaf cs)"
    by (simp add: add_calls_eq)
  have nth: "map ?leaf cs ! i = (case cs ! i of (p, f, v) \<Rightarrow>
      Query None False (Some p) (Some f) v None)" if "i < length cs" for i
    using that by (simp add: case_prod_beta)
  have fresh: "(case add_calls cs (constructor arg) of
        (e :: 'e exn option, this' :: 'v QueryBuilder) \<Rightarrow>
         e = None
         \<and> length (children_of this') = length cs
         \<and> (\<forall>i < length cs.
               children_of this' ! i
                 = (case cs ! i of (p, f, v) \<Rightarrow> Query None False (Some p) (Some f) v None))
         \<and> (cs \<noteq> [] \<longrightarrow> Queries (fst (build this')) = Some (map ?leaf cs)))"
    by (simp add: add_calls_eq build_def nth)
  have one: "(case add p f v this of (e :: 'e exn option, this') \<Rightarrow> Queries (currentQuery this'))
       = Some (children_of this @ [Query None False (Some p) (Some f) v None])"
    by (simp add: add_eq)
  have grp: "(case group_builder ga c this of (e, this') \<Rightarrow> children_of this')
       = (case ga (constructor c) this of
            (None, g, outer) \<Rightarrow> children_of outer @ [fst (build g)]
          | (Some x, g, outer) \<Rightarrow> children_of outer)"
  proof (cases "ga (constructor c) this")
    case (fields x g outer)
    then show ?thesis
      by (cases x) (simp_all add: group_thrown group_returned build_def)
  qed
  have progs: "(case sequence (map run_call calls) this of (e, this') \<Rightarrow>
         prefix (children_of this) (children_of this'))"
    using prefix_run_calls [of calls this] by (simp split: prod.splits)
  have ops: "children_of (and_builder this) = children_of this"
    "children_of (or_builder this) = children_of this"
    "children_of (xor_builder this) = children_of this"
    by (simp_all add: and_builder_def or_builder_def xor_builder_def)
  from calls fresh one grp ops progs show ?thesis
    by blast
qed

theorem C5_children_append_only_witness:
  "(case add_calls [(''age'', GreaterThan, Some (JsNumber 18)), (''country'', Equal, None)]
           (constructor (Some Or))
     of (e :: unit exn option, this') \<Rightarrow>
       e = None
       \<and> length (children_of this') = 2
       \<and> (1 :: nat) < 2
       \<and> children_of this' ! 1 = Query None False (Some ''country'') (Some Equal) None None
       \<and> Queries (fst (build this'))
           = Some [Query None False (Some ''age'') (Some GreaterThan) (Some (JsNumber 18)) None,
                   Query None False (Some ''country'') (Some Equal) None None])"
  using C5_children_append_only
    [where cs = "[(''age'', GreaterThan, Some (JsNumber 18)), (''country'', Equal, None)]"
       and arg = "Some Or" and 'e = unit and 'v = js_value]
  by (simp add: build_def split: prod.splits)

text \<open>
  C6. Let the callback, run on the fresh sub-builder that \<^verbatim>\<open>group(cb, Operator.Or)\<close> hands
  it, do what two \<^verbatim>\<open>add\<close> calls on the sub-builder do, and nothing to the outer builder.
  Then \<^verbatim>\<open>group\<close> returns normally and appends exactly one child to the outer builder's
  children, leaving everything else of the outer node as it was: the child has
  \<^verbatim>\<open>Operator: Or\<close>, \<^verbatim>\<open>Not: false\<close>, no leaf members, and as \<^verbatim>\<open>Queries\<close> the two leaves in the
  order the callback added them.
\<close>

theorem C6_group_Or_two_conditions:
  fixes this :: "'v QueryBuilder"
    and cb :: "('e, 'v) callback"
  assumes "cb (constructor (Some Or)) this =
     (case chain (add p1 f1 v1 (constructor (Some Or))) (add p2 f2 v2) of
        (x, qb') \<Rightarrow> (x, qb', this))"
  shows "group_builder cb (Some Or) this =
     (None,
      this\<lparr>currentQuery :=
        set_Queries
          (children_of this @
             [Query (Some Or) False None None None
                (Some [Query None False (Some p1) (Some f1) v1 None,
                       Query None False (Some p2) (Some f2) v2 None])])
          (currentQuery this)\<rparr>)"
proof -
  have "cb (constructor (Some Or)) this =
      (None, \<lparr>currentQuery = Query (Some Or) False None None None
                (Some [Query None False (Some p1) (Some f1) v1 None,
                       Query None False (Some p2) (Some f2) v2 None])\<rparr>, this)"
    unfolding assms
    by (simp add: add_eq chain_def constructor_Some set_Queries_def children_of_def)
  then show ?thesis
    by (simp add: group_returned)
qed

theorem C6_group_Or_two_conditions_witness:
  "(\<lambda>qb outer.
       case chain (add ''a'' Equal (Some (JsNumber 1)) qb)
              (add ''b'' Contains (Some (JsString ''x''))) of
         (x, qb') \<Rightarrow> (x, qb', outer))
       (constructor (Some Or)) (constructor (Some Xor))
     = (case chain (add ''a'' Equal (Some (JsNumber 1)) (constructor (Some Or)))
               (add ''b'' Contains (Some (JsString ''x''))) of
          (x :: unit exn option, qb' :: js_value QueryBuilder) \<Rightarrow>
            (x, qb', constructor (Some Xor)))
   \<and> (case group_builder
             (\<lambda>qb outer.
                case chain (add ''a'' Equal (Some (JsNumber 1)) qb)
                       (add ''b'' Contains (Some (JsString ''x''))) of
                  (x, qb') \<Rightarrow> (x, qb', outer))
             (Some Or)
             (constructor (Some Xor))
       of (e :: unit exn option, this') \<Rightarrow> (e, fst (build this')))
     = (None,
        Query (Some Xor) False None None None
          (Some [Query (Some Or) False None None None
                   (Some [Query None False (Some ''a'') (Some Equal) (Some (JsNumber 1)) None,
                          Query None False (Some ''b'') (Some Contains)
                            (Some (JsString ''x'')) None])]))"
  using C6_group_Or_two_conditions
    [where cb = "\<lambda>qb outer.
                   case chain (add ''a'' Equal (Some (JsNumber 1)) qb)
                          (add ''b'' Contains (Some (JsString ''x''))) of
                     (x, qb') \<Rightarrow> (x, qb', outer)"
       and ?p1.0 = "''a''" and ?f1.0 = Equal and ?v1.0 = "Some (JsNumber 1)"
       and ?p2.0 = "''b''" and ?f2.0 = Contains and ?v2.0 = "Some (JsString ''x'')"
       and this = "constructor (Some Xor)" and 'e = unit]
  by (simp add: constructor_Some build_def set_Queries_def children_of_def)

text \<open>
  C7. \<^verbatim>\<open>build()\<close> returns the current node of any builder, complete or not, without an
  exception and without changing the builder; a second \<^verbatim>\<open>build()\<close> right after the first
  returns the same tree. In a client program a \<^verbatim>\<open>build()\<close> call leaves the state as it is.
\<close>

theorem C7_build_is_a_pure_read:
  "build this = (currentQuery this, this)
   \<and> (case build this of (q1, this1) \<Rightarrow>
        case build this1 of (q2, this2) \<Rightarrow> q1 = q2 \<and> this1 = this \<and> this2 = this)
   \<and> run_call CallBuild this = (None, this)
   \<and> fst (build \<lparr>currentQuery = Query None False (Some p) None None None\<rparr>)
       = Query None False (Some p) None None None"
  by (simp add: build_def)

text \<open>
  C8. When the callback handed to \<^verbatim>\<open>group\<close> throws \<open>e\<close>, \<^verbatim>\<open>group\<close> ends with that same \<open>e\<close>,
  and the outer builder is then in exactly the state the callback had brought it to
  when it threw: nothing is rolled back, neither what the callback did to the outer
  builder through its closure nor what calls chained before the failing \<^verbatim>\<open>group\<close> did.
  Nothing else fails: \<^verbatim>\<open>group\<close> ends with exactly the exception of its callback, if any;
  \<^verbatim>\<open>add\<close> always returns normally; the constructor, \<^verbatim>\<open>and\<close>, \<^verbatim>\<open>or\<close>, \<^verbatim>\<open>xor\<close> and \<^verbatim>\<open>build\<close> have
  no exceptional outcome at all; a client program never ends in a \<^verbatim>\<open>TypeError\<close>, and one
  in which no callback throws returns normally.
\<close>

theorem C8_callback_error_propagates:
  fixes this :: "'v QueryBuilder"
    and groupAction :: "('e, 'v) callback"
    and calls :: "('e, 'v) call list"
  shows
  "(groupAction (constructor condition) this = (Some e, g, this') \<longrightarrow>
      group_builder groupAction condition this = (Some e, this'))
   \<and> (groupAction (constructor condition)
         (this\<lparr>currentQuery :=
            set_Queries (children_of this @ [Query None False (Some p) (Some f) v None])
              (currentQuery this)\<rparr>)
        = (Some e1, g1, this1) \<longrightarrow>
      chain (add p f v this) (group_builder groupAction condition) = (Some e1, this1))
   \<and> fst (group_builder groupAction condition this)
       = fst (groupAction (constructor condition) this)
   \<and> fst (add p f v this :: ('e, 'v) outcome) = None
   \<and> fst (sequence (map run_call calls) this) \<noteq> Some TypeError
   \<and> (list_all throw_free calls \<longrightarrow> fst (sequence (map run_call calls) this) = None)"
  by (simp add: group_thrown fst_group add_eq chain_def run_calls_no_TypeError
        throw_free_list_returns)

theorem C8_callback_error_propagates_witness:
  "closure_body
       (map run_stmt [OnSub (CallAdd ''x'' IsNull None),
                      OnOuter (CallAdd ''y'' Equal (Some (JsNumber 1))),
                      OnSub (Throw ''boom'')])
       (constructor (Some Xor)) (constructor (Some Or))
     = (Some (Thrown ''boom''),
        \<lparr>currentQuery = Query (Some Xor) False None None None
           (Some [Query None False (Some ''x'') (Some IsNull) None None])\<rparr>,
        \<lparr>currentQuery = Query (Some Or) False None None None
           (Some [Query None False (Some ''y'') (Some Equal) (Some (JsNumber 1)) None])\<rparr>)
   \<and> group_builder
        (closure_body
           (map run_stmt [OnSub (CallAdd ''x'' IsNull None),
                          OnOuter (CallAdd ''y'' Equal (Some (JsNumber 1))),
                          OnSub (Throw ''boom'')]))
        (Some Xor) (constructor (Some Or))
     = (Some (Thrown ''boom''),
        \<lparr>currentQuery = Query (Some Or) False None None None
           (Some [Query None False (Some ''y'') (Some Equal) (Some (JsNumber 1)) None])\<rparr>)
   \<and> chain (add ''age'' GreaterThan (Some (JsNumber 18)) (constructor (Some Or)))
        (group_builder
           (closure_body
              (map run_stmt [OnSub (CallAdd ''x'' IsNull None),
                             OnOuter (CallAdd ''y'' Equal (Some (JsNumber 1))),
                             OnSub (Throw ''boom'')]))
           (Some Xor))
     = (Some (Thrown ''boom''),
        \<lparr>currentQuery = Query (Some Or) False None None None
           (Some [Query None False (Some ''age'') (Some GreaterThan) (Some (JsNumber 18)) None,
                  Query None False (Some ''y'') (Some Equal) (Some (JsNumber 1)) None])\<rparr>)
   \<and> list_all throw_free [CallAdd ''a'' Equal (Some (JsNumber 1)),
        CallGroup [OnSub CallOr, OnOuter (CallAdd ''b'' In None)] None
          :: (string, js_value) call]
   \<and> fst (sequence (map run_call [CallAdd ''a'' Equal (Some (JsNumber 1)),
        CallGroup [OnSub CallOr, OnOuter (CallAdd ''b'' In None)] None
          :: (string, js_value) call])
        (constructor (Some Or))) = None"
  using C8_callback_error_propagates
    [where groupAction = "closure_body
           (map run_stmt [OnSub (CallAdd ''x'' IsNull None),
                          OnOuter (CallAdd ''y'' Equal (Some (JsNumber 1))),
                          OnSub (Throw ''boom'')])"
       and condition = "Some Xor" and e = "Thrown ''boom''"
       and g = "\<lparr>currentQuery = Query (Some Xor) False None None None
           (Some [Query None False (Some ''x'') (Some IsNull) None None])\<rparr>"
       and this = "constructor (Some Or)"
       and this' = "\<lparr>currentQuery = Query (Some Or) False None None None
           (Some [Query None False (Some ''y'') (Some Equal) (Some (JsNumber 1)) None])\<rparr>"
       and p = "''age''" and f = GreaterThan and v = "Some (JsNumber 18)"
       and ?e1.0 = "Thrown ''boom''"
       and ?g1.0 = "\<lparr>currentQuery = Query (Some Xor) False None None None
           (Some [Query None False (Some ''x'') (Some IsNull) None None])\<rparr>"
       and ?this1.0 = "\<lparr>currentQuery = Query (Some Or) False None None None
           (Some [Query None False (Some ''age'') (Some GreaterThan) (Some (JsNumber 18)) None,
                  Query None False (Some ''y'') (Some Equal) (Some (JsNumber 1)) None])\<rparr>"
       and calls = "[CallAdd ''a'' Equal (Some (JsNumber 1)),
                     CallGroup [OnSub CallOr, OnOuter (CallAdd ''b'' In None)] None]"]
  by (simp add: add_eq chain_def constructor_Some set_Queries_def children_of_def)

text \<open>
  C9. Every node of every tree the builder produces has \<^verbatim>\<open>Not\<close> equal to false: for any
  constructor argument and any client program run on the fresh builder, however it
  ends, the root that \<^verbatim>\<open>build()\<close> then returns, the leaves appended by \<^verbatim>\<open>add\<close> and the
  sub-roots appended by \<^verbatim>\<open>group\<close> carry \<^verbatim>\<open>Not: false\<close> at every depth. \<^verbatim>\<open>Not\<close> is a \<open>bool\<close>
  member, so it is never absent.
\<close>

theorem C9_Not_is_false_everywhere:
  fixes calls :: "('e, 'v) call list"
  shows "all_Not_false (fst (build (snd (sequence (map run_call calls) (constructor arg)))))"
proof -
  obtain e this' where r: "sequence (map run_call calls) (constructor arg) = (e, this')"
    by (cases "sequence (map run_call calls) (constructor arg)")
  have "all_Not_false (currentQuery this')"
    using inv_run_calls [OF inv_constructor r] .
  with r show ?thesis
    by (simp add: build_def)
qed

text \<open>
  C10. As specified, a callback that throws leaves the outer builder's current node
  exactly as it was before the \<^verbatim>\<open>group\<close> call. That fails when the callback reaches the
  outer builder through its closure: in
  \<^verbatim>\<open>b.group(qb => { b.add("y", Filter.Equal, 1); throw "boom"; })\<close> on
  \<^verbatim>\<open>b = new QueryBuilder(Operator.Or)\<close> the callback throws, and \<^verbatim>\<open>b\<close> then holds the leaf
  \<^verbatim>\<open>y\<close>, which it did not hold before the call.
\<close>

theorem C10_outer_changed_through_closure_counterexample:
  "fst (closure_body
          (map run_stmt [OnOuter (CallAdd ''y'' Equal (Some (JsNumber 1))),
                         OnSub (Throw ''boom'')])
          (constructor None) (constructor (Some Or)))
     = Some (Thrown ''boom'')
   \<and> group_builder
        (closure_body
           (map run_stmt [OnOuter (CallAdd ''y'' Equal (Some (JsNumber 1))),
                          OnSub (Throw ''boom'')]))
        None (constructor (Some Or))
     = (Some (Thrown ''boom''),
        \<lparr>currentQuery = Query (Some Or) False None None None
           (Some [Query None False (Some ''y'') (Some Equal) (Some (JsNumber 1)) None])\<rparr>)
   \<and> fst (build (snd (group_builder
        (closure_body
           (map run_stmt [OnOuter (CallAdd ''y'' Equal (Some (JsNumber 1))),
                          OnSub (Throw ''boom'')]))
        None (constructor (Some Or)))))
     \<noteq> fst (build (constructor (Some Or)))"
  by (simp add: group_builder_def add_eq constructor_None constructor_Some build_def
        set_Queries_def children_of_def)

text \<open>
  C10, amended. \<^verbatim>\<open>group\<close> itself touches the outer builder only after its callback has
  returned. When the callback throws, whatever it had done to the sub-builder by
  then, \<^verbatim>\<open>group\<close> ends with the outer builder exactly as the callback left it: no child
  was appended, and an absent \<^verbatim>\<open>Queries\<close> was not created. So the outer builder's node
  after the call is the node before the call whenever the callback did not itself
  change the outer builder.
\<close>

theorem C10_group_adds_nothing_on_throw:
  fixes this :: "'v QueryBuilder"
    and groupAction :: "('e, 'v) callback"
  assumes "groupAction (constructor condition) this = (Some e, g, this')"
  shows "(case group_builder groupAction condition this of (x, this'') \<Rightarrow>
            x = Some e
            \<and> this'' = this'
            \<and> fst (build this'') = fst (build this')
            \<and> Queries (currentQuery this'') = Queries (currentQuery this')
            \<and> children_of this'' = children_of this'
            \<and> (this' = this \<longrightarrow>
                  this'' = this \<and> fst (build this'') = fst (build this)
                  \<and> Queries (currentQuery this'') = Queries (currentQuery this)))"
  using assms by (simp add: group_thrown)

theorem C10_group_adds_nothing_on_throw_witness:
  "closure_body (map run_stmt [OnSub (CallAdd ''x'' IsNull None), OnSub (Throw (42 :: nat))])
       (constructor None) (constructor (Some Or))
     = (Some (Thrown 42),
        \<lparr>currentQuery = Query None False None None None
           (Some [Query None False (Some ''x'') (Some IsNull) (None :: js_value option) None])\<rparr>,
        constructor (Some Or))
   \<and> (case group_builder
             (closure_body
                (map run_stmt [OnSub (CallAdd ''x'' IsNull (None :: js_value option)),
                               OnSub (Throw (42 :: nat))]))
             None (constructor (Some Or))
       of (x, this') \<Rightarrow> (x, fst (build this'), Queries (currentQuery this')))
     = (Some (Thrown 42), Query (Some Or) False None None None None, None)"
  using C10_group_adds_nothing_on_throw
    [where groupAction = "closure_body
             (map run_stmt [OnSub (CallAdd ''x'' IsNull (None :: js_value option)),
                            OnSub (Throw (42 :: nat))])"
       and condition = None and e = "Thrown 42"
       and g = "\<lparr>currentQuery = Query None False None None None
           (Some [Query None False (Some ''x'') (Some IsNull) (None :: js_value option) None])\<rparr>"
       and this = "constructor (Some Or)" and this' = "constructor (Some Or)"]
  by (simp add: add_eq constructor_None constructor_Some build_def set_Queries_def
        children_of_def split: prod.splits)

end
